theory Spec2Isabelle
  imports Complex_Main "HOL-Library.Sublist"
begin

text \<open>
  A shallow embedding of the generators of synthetic customers and purchases:
  \<^verbatim>\<open>gerar_compras.py\<close>, \<^verbatim>\<open>gerar_clientes.py\<close> and the two in-memory generators of
  \<^verbatim>\<open>app.py\<close>. Exceptions are values of a sum type, the random generators are explicit
  states, loops are recursive functions. The definitions come first, the properties
  after them.
\<close>

section \<open>Data model\<close>

text \<open>
  A Python \<open>str\<close> is a sequence of Unicode code points; it is modelled as a list of
  code points. \<open>ascii\<close> embeds an ASCII literal.
\<close>

type_synonym pystr = "nat list"

definition ascii :: "string \<Rightarrow> pystr" where
  "ascii s = map of_char s"

text \<open>
  The exceptions the source can raise. \<open>HTTPException\<close> carries the status code and the
  detail message of \<open>app.py\<close> (one constructor of \<open>detail\<close> per message); \<open>CsvError\<close> is
  the \<open>_csv.Error\<close> of the CSV reader, which is not a \<open>ValueError\<close> and which
  \<open>app.py\<close> does not catch.
\<close>

datatype detail =
    Rows_must_be_ge_1
  | Rows_exceeds_limit
  | Valor_max_must_be_ge_valor_min
  | Invalid_date_format
  | Fim_earlier_than_inicio
  | CSV_must_contain_column
  | No_client_codes_found
  | Count_must_be_ge_1
  | Count_exceeds_limit

datatype error =
    HTTPException nat detail
  | ValueError
  | IndexError
  | ZeroDivisionError
  | CsvError

text \<open>
  A purchase row is the tuple \<open>(codigo_cliente, data_iso, valor_float, codigo_filial)\<close>.
  The amount is a Python float in the source; here it is an exact rational, so
  the arithmetic of \<open>uniform\<close> and \<open>round\<close> is the ideal one, without binary rounding.
\<close>

type_synonym row = "pystr \<times> pystr \<times> rat \<times> pystr"

section \<open>The random generator\<close>

text \<open>
  \<open>random.Random\<close> belongs to the Python standard library, not to the repository.
  Its state is modelled as the infinite tape of raw draws still to come; every library
  call consumes one raw draw and maps it into the range that the library documents:
  \<open>random()\<close> returns a multiple of \<open>2^-53\<close> in \<open>[0, 1)\<close>,
  \<open>uniform(a, b)\<close> returns \<open>a + (b - a) * random()\<close>,
  \<open>randint(a, b)\<close> returns an integer of \<open>[a, b]\<close> and raises ValueError on an
  empty range, \<open>choice(seq)\<close> returns an element of \<open>seq\<close> and raises IndexError on
  an empty sequence. The tape is arbitrary, so every sequence of results the real
  generator can return is the behaviour of some tape.
\<close>

type_synonym rng = "nat \<Rightarrow> nat"

definition rng_advance :: "rng \<Rightarrow> rng" where
  "rng_advance g = (\<lambda>i. g (Suc i))"

definition rng_random :: "rng \<Rightarrow> rat \<times> rng" where
  "rng_random g = (of_nat (g 0 mod 2 ^ 53) / 2 ^ 53, rng_advance g)"

definition rng_uniform :: "rat \<Rightarrow> rat \<Rightarrow> rng \<Rightarrow> rat \<times> rng" where
  "rng_uniform a b g = (case rng_random g of (u, g') \<Rightarrow> (a + (b - a) * u, g'))"

definition rng_randint :: "int \<Rightarrow> int \<Rightarrow> rng \<Rightarrow> error + (int \<times> rng)" where
  "rng_randint a b g =
     (if b < a then Inl ValueError
      else Inr (a + int (g 0 mod nat (b - a + 1)), rng_advance g))"

definition rng_choice :: "'a list \<Rightarrow> rng \<Rightarrow> error + ('a \<times> rng)" where
  "rng_choice seq g =
     (if seq = [] then Inl IndexError
      else Inr (seq ! (g 0 mod length seq), rng_advance g))"

section \<open>Python primitives used by the allocator\<close>

text \<open>\<open>a % b\<close> on integers: ZeroDivisionError when \<open>b = 0\<close>, else the floored remainder.\<close>

definition py_mod :: "int \<Rightarrow> int \<Rightarrow> error + int" where
  "py_mod a b = (if b = 0 then Inl ZeroDivisionError else Inr (a mod b))"

text \<open>
  \<open>xs[i]\<close>: an index from \<open>0\<close> up to \<open>len(xs) - 1\<close> reads from the front, one from
  \<open>-len(xs)\<close> up to \<open>-1\<close> reads from the back, any other raises IndexError.
\<close>

definition py_index :: "'a list \<Rightarrow> int \<Rightarrow> error + 'a" where
  "py_index xs i =
     (if 0 \<le> i \<and> i < int (length xs) then Inr (xs ! nat i)
      else if - int (length xs) \<le> i \<and> i < 0 then Inr (xs ! nat (int (length xs) + i))
      else Inl IndexError)"

text \<open>
  \<open>round(x, 2)\<close>: the nearest multiple of \<open>0.01\<close>, a tie going to the even
  hundredth.
\<close>

definition py_round2 :: "rat \<Rightarrow> rat" where
  "py_round2 x =
     (let y = x * 100; f = \<lfloor>y\<rfloor>; d = y - of_int f
      in of_int (if d < 1 / 2 then f
                 else if 1 / 2 < d then f + 1
                 else if even f then f else f + 1) / 100)"

section \<open>The functions of \<^verbatim>\<open>gerar_compras.py\<close>\<close>

definition escolher :: "pystr list \<Rightarrow> rng \<Rightarrow> error + (pystr \<times> rng)" where
  "escolher iterable g = rng_choice iterable g"

text \<open>
  The coverage loop \<open>for idx, cod in enumerate(codigos_clientes)\<close>: the first argument is
  the part of the enumeration still to visit, \<open>rows\<close> and \<open>g\<close> are the state.
\<close>

fun coverage_loop ::
  "(nat \<times> pystr) list \<Rightarrow> rat \<Rightarrow> rat \<Rightarrow> pystr list \<Rightarrow> pystr list \<Rightarrow> row list \<Rightarrow> rng
     \<Rightarrow> error + (row list \<times> rng)" where
  "coverage_loop [] valor_min valor_max datas filiais rows g = Inr (rows, g)"
| "coverage_loop ((idx, cod) # rest) valor_min valor_max datas filiais rows g =
     (case py_mod (int idx) (int (length datas)) of
        Inl e \<Rightarrow> Inl e
      | Inr j \<Rightarrow>
     (case py_index datas j of
        Inl e \<Rightarrow> Inl e
      | Inr data \<Rightarrow>
     (case rng_uniform valor_min valor_max g of (u, g1) \<Rightarrow>
     (case escolher filiais g1 of
        Inl e \<Rightarrow> Inl e
      | Inr (filial, g2) \<Rightarrow>
          coverage_loop rest valor_min valor_max datas filiais
            (rows @ [(cod, data, py_round2 u, filial)]) g2))))"

text \<open>
  The fill loop \<open>for i in range(faltantes)\<close>: the first argument is the part of the range
  still to visit. \<open>len(rows)\<close> is read in every iteration, after the appends of the
  iterations before.
\<close>

fun fill_loop ::
  "nat list \<Rightarrow> pystr list \<Rightarrow> rat \<Rightarrow> rat \<Rightarrow> pystr list \<Rightarrow> pystr list \<Rightarrow> row list \<Rightarrow> rng
     \<Rightarrow> error + (row list \<times> rng)" where
  "fill_loop [] codigos_clientes valor_min valor_max datas filiais rows g = Inr (rows, g)"
| "fill_loop (i # rest) codigos_clientes valor_min valor_max datas filiais rows g =
     (case escolher codigos_clientes g of
        Inl e \<Rightarrow> Inl e
      | Inr (cod, g0) \<Rightarrow>
     (case py_mod (int (length rows) + int i) (int (length datas)) of
        Inl e \<Rightarrow> Inl e
      | Inr j \<Rightarrow>
     (case py_index datas j of
        Inl e \<Rightarrow> Inl e
      | Inr data \<Rightarrow>
     (case rng_uniform valor_min valor_max g0 of (u, g1) \<Rightarrow>
     (case escolher filiais g1 of
        Inl e \<Rightarrow> Inl e
      | Inr (filial, g2) \<Rightarrow>
          fill_loop rest codigos_clientes valor_min valor_max datas filiais
            (rows @ [(cod, data, py_round2 u, filial)]) g2)))))"

definition montar_compras ::
  "pystr list \<Rightarrow> int \<Rightarrow> rat \<Rightarrow> rat \<Rightarrow> pystr list \<Rightarrow> pystr list \<Rightarrow> rng
     \<Rightarrow> error + (row list \<times> rng)" where
  "montar_compras codigos_clientes total_linhas valor_min valor_max datas filiais g =
     (if valor_max < valor_min then Inl ValueError
      else
        let total = max total_linhas (int (length codigos_clientes)) in
        (case coverage_loop (enumerate 0 codigos_clientes) valor_min valor_max datas filiais [] g of
           Inl e \<Rightarrow> Inl e
         | Inr (rows, g1) \<Rightarrow>
             let faltantes = total - int (length rows) in
             fill_loop [0 ..< nat faltantes] codigos_clientes valor_min valor_max datas filiais
               rows g1))"

text \<open>
  A \<open>datetime\<close> is modelled as its day number (\<open>toordinal()\<close>): every call site
  parses it with \<open>'%Y-%m-%d'\<close>, so its time of day is midnight and
  \<open>(fim - inicio).days\<close> is the difference of the day numbers. \<open>strftime\<close> renders
  a day number as \<open>YYYY-MM-DD\<close>; it is a parameter.
\<close>

fun gerar_datas_loop ::
  "nat \<Rightarrow> (int \<Rightarrow> pystr) \<Rightarrow> int \<Rightarrow> int \<Rightarrow> pystr list \<Rightarrow> rng \<Rightarrow> error + (pystr list \<times> rng)" where
  "gerar_datas_loop 0 strftime inicio delta datas g = Inr (datas, g)"
| "gerar_datas_loop (Suc k) strftime inicio delta datas g =
     (case (if delta > 0 then rng_randint 0 delta g else Inr (0, g)) of
        Inl e \<Rightarrow> Inl e
      | Inr (offset, g') \<Rightarrow>
          gerar_datas_loop k strftime inicio delta (datas @ [strftime (inicio + offset)]) g')"

definition gerar_datas ::
  "(int \<Rightarrow> pystr) \<Rightarrow> int \<Rightarrow> int \<Rightarrow> int \<Rightarrow> rng \<Rightarrow> error + (pystr list \<times> rng)" where
  "gerar_datas strftime n inicio fim g =
     (if fim < inicio then Inl ValueError
      else
        let delta = fim - inicio;
            delta = (if delta < 0 then 0 else delta)
        in gerar_datas_loop (nat n) strftime inicio delta [] g)"

text \<open>\<open>str(n)\<close> for a natural number: its decimal digits.\<close>

function str_nat :: "nat \<Rightarrow> pystr" where
  "str_nat n = (if n < 10 then [48 + n] else str_nat (n div 10) @ [48 + n mod 10])"
  by pat_completeness auto
termination
  by (relation "measure (\<lambda>n. n)") auto

declare str_nat.simps [simp del]

text \<open>
  \<open>format(i, '0wd')\<close>, the \<open>{i:03d}\<close> of an f-string: the decimal digits padded with
  zeros on the left up to the width \<open>w\<close>, the sign first and counted in the width.
\<close>

definition fmt_0d :: "nat \<Rightarrow> int \<Rightarrow> pystr" where
  "fmt_0d w i =
     (if i < 0
      then (let ds = str_nat (nat (- i)) in 45 # replicate (w - 1 - length ds) 48 @ ds)
      else (let ds = str_nat (nat i) in replicate (w - length ds) 48 @ ds))"

definition gerar_filiais :: "int \<Rightarrow> pystr list" where
  "gerar_filiais qtd = (let qtd = max 1 qtd in map (\<lambda>i. ascii ''F'' @ fmt_0d 3 i) [1 .. qtd])"

section \<open>String primitives of Python\<close>

text \<open>
  \<open>s.replace(old, new)\<close>: the occurrences of \<open>old\<close> are replaced from left to right,
  the search resuming after each replaced occurrence.
\<close>

function str_replace_ne :: "pystr \<Rightarrow> pystr \<Rightarrow> pystr \<Rightarrow> pystr" where
  "str_replace_ne old new [] = []"
| "str_replace_ne old new (c # cs) =
     (if prefix old (c # cs) then new @ str_replace_ne old new (drop (length old - 1) cs)
      else c # str_replace_ne old new cs)"
  by pat_completeness auto
termination
  by (relation "measure (\<lambda>(old, new, s). length s)") auto

definition str_replace :: "pystr \<Rightarrow> pystr \<Rightarrow> pystr \<Rightarrow> pystr" where
  "str_replace old new s =
     (if old = [] then new @ concat (map (\<lambda>c. c # new) s) else str_replace_ne old new s)"

text \<open>\<open>s.split()\<close>: the maximal runs of characters that are not whitespace.\<close>

fun split_aux :: "(nat \<Rightarrow> bool) \<Rightarrow> pystr \<Rightarrow> pystr \<Rightarrow> pystr list" where
  "split_aux sp cur [] = (if cur = [] then [] else [cur])"
| "split_aux sp cur (c # cs) =
     (if sp c then (if cur = [] then split_aux sp [] cs else cur # split_aux sp [] cs)
      else split_aux sp (cur @ [c]) cs)"

definition py_split :: "(nat \<Rightarrow> bool) \<Rightarrow> pystr \<Rightarrow> pystr list" where
  "py_split sp s = split_aux sp [] s"

text \<open>\<open>s.strip()\<close> removes whitespace at both ends, \<open>s.strip(chars)\<close> the characters of \<open>chars\<close>.\<close>

definition py_strip_by :: "(nat \<Rightarrow> bool) \<Rightarrow> pystr \<Rightarrow> pystr" where
  "py_strip_by p s = rev (dropWhile p (rev (dropWhile p s)))"

definition py_strip_chars :: "pystr \<Rightarrow> pystr \<Rightarrow> pystr" where
  "py_strip_chars chars s = py_strip_by (\<lambda>c. c \<in> set chars) s"

section \<open>Library functions and configuration taken as parameters\<close>

text \<open>
  A \<open>csv.DictReader\<close> as the source uses it. Reading \<open>fieldnames\<close> parses the first
  line: it raises \<open>_csv.Error\<close>, or gives \<open>None\<close> for an empty text, or gives the
  names. Iterating yields one dictionary per data row (\<open>csv_rows\<close>), and may end with
  \<open>_csv.Error\<close> after them (\<open>rows_raise\<close>).
\<close>

datatype 'a reading = Csv_raises | Csv_gives 'a

record csv_reader =
  fieldnames :: "pystr list option reading"
  csv_rows :: "(pystr \<rightharpoonup> pystr) list"
  rows_raise :: bool

text \<open>
  What the source calls outside the repository: the Unicode tables behind \<open>str.lower\<close>,
  \<open>str.isspace\<close>, \<open>unicodedata.normalize('NFD', _)\<close> and \<open>unicodedata.category\<close>;
  \<open>datetime.strptime(_, '%Y-%m-%d')\<close> (\<open>None\<close> for its ValueError) and
  \<open>strftime('%Y-%m-%d')\<close> on day numbers; \<open>bytes.decode\<close> for UTF-8 (\<open>None\<close> for its
  UnicodeDecodeError) and for Latin-1; \<open>csv.DictReader\<close> on a decoded text; the seeding
  \<open>random.Random(seed)\<close>; \<open>Faker.name\<close> and \<open>validate_docbr.CPF.generate(mask=True)\<close>,
  each reading and advancing the generator it draws from; and the limits read from the
  environment.
\<close>

record pylib =
  MAX_CLIENTS :: int
  MAX_PURCHASES :: int
  str_lower :: "pystr \<Rightarrow> pystr"
  isspace :: "nat \<Rightarrow> bool"
  normalize_NFD :: "pystr \<Rightarrow> pystr"
  category_Mn :: "nat \<Rightarrow> bool"
  strptime_ymd :: "pystr \<Rightarrow> int option"
  strftime_ymd :: "int \<Rightarrow> pystr"
  decode_utf8 :: "nat list \<Rightarrow> pystr option"
  decode_latin1 :: "nat list \<Rightarrow> pystr"
  DictReader :: "pystr \<Rightarrow> csv_reader"
  Random :: "int \<Rightarrow> rng"
  faker_name :: "rng \<Rightarrow> pystr \<times> rng"
  cpf_generate :: "rng \<Rightarrow> pystr \<times> rng"

section \<open>Purchases in \<^verbatim>\<open>app.py\<close>\<close>

text \<open>
  The first lines of \<open>_parse_client_codes_from_upload\<close>: the bytes of the upload are
  decoded as UTF-8, as Latin-1 when that fails, and handed to the reader.
\<close>

definition open_reader :: "pylib \<Rightarrow> nat list \<Rightarrow> csv_reader" where
  "open_reader lib file_bytes =
     (let s = (case decode_utf8 lib file_bytes of
                 Some s \<Rightarrow> s
               | None \<Rightarrow> decode_latin1 lib file_bytes)
      in DictReader lib s)"

definition code_columns :: "pystr list" where
  "code_columns =
     [ascii ''C'' @ [243] @ ascii ''digoCliente'', ascii ''CodigoCliente'',
      ascii ''Codigo'', ascii ''C'' @ [243] @ ascii ''digo'']"

definition find_field :: "pystr list option \<Rightarrow> pystr option" where
  "find_field fns =
     (case fns of
        None \<Rightarrow> None
      | Some fs \<Rightarrow> (if fs = [] then None else find (\<lambda>cand. cand \<in> set fs) code_columns))"

fun collect_codes :: "(nat \<Rightarrow> bool) \<Rightarrow> pystr \<Rightarrow> (pystr \<rightharpoonup> pystr) list \<Rightarrow> pystr list \<Rightarrow> pystr list" where
  "collect_codes sp field [] codes = codes"
| "collect_codes sp field (r # rs) codes =
     (let code = py_strip_by sp (case r field of None \<Rightarrow> [] | Some v \<Rightarrow> v)
      in collect_codes sp field rs (if code \<noteq> [] then codes @ [code] else codes))"

text \<open>
  An exception of the reader leaves the function as it is: the first access to
  \<open>fieldnames\<close> is in the search for the column, the iteration is the loop over the rows,
  and the test for an empty list comes after the loop.
\<close>

definition parse_client_codes_from_upload :: "pylib \<Rightarrow> nat list \<Rightarrow> error + pystr list" where
  "parse_client_codes_from_upload lib file_bytes =
     (let reader = open_reader lib file_bytes in
      case fieldnames reader of
        Csv_raises \<Rightarrow> Inl CsvError
      | Csv_gives fns \<Rightarrow>
     (case find_field fns of
        None \<Rightarrow> Inl (HTTPException 400 CSV_must_contain_column)
      | Some field \<Rightarrow>
          (if field = [] then Inl (HTTPException 400 CSV_must_contain_column)
           else
             let codes = collect_codes (isspace lib) field (csv_rows reader) []
             in if rows_raise reader then Inl CsvError
                else if codes = [] then Inl (HTTPException 400 No_client_codes_found)
                else Inr codes)))"

text \<open>
  The allocation of \<open>_in_memory_purchases\<close> (and of \<open>main\<close> in \<open>gerar_compras.py\<close>),
  from the generator on: the date pool of \<open>max(rows_total, len(codigos_clientes))\<close> dates,
  the branch pool, then \<open>montar_compras\<close> on the generator that \<open>gerar_datas\<close> leaves.
\<close>

definition allocation_pipeline ::
  "(int \<Rightarrow> pystr) \<Rightarrow> pystr list \<Rightarrow> int \<Rightarrow> rat \<Rightarrow> rat \<Rightarrow> int \<Rightarrow> int \<Rightarrow> int \<Rightarrow> rng
     \<Rightarrow> error + row list" where
  "allocation_pipeline strftime codigos_clientes rows_total valor_min valor_max inicio fim
       filiais_qtd rng =
     (case gerar_datas strftime (max rows_total (int (length codigos_clientes))) inicio fim rng of
        Inl e \<Rightarrow> Inl e
      | Inr (datas, rng1) \<Rightarrow>
     (case montar_compras codigos_clientes rows_total valor_min valor_max datas
             (gerar_filiais filiais_qtd) rng1 of
        Inl e \<Rightarrow> Inl e
      | Inr (rows, rng2) \<Rightarrow> Inr rows))"

text \<open>
  \<open>_in_memory_purchases\<close> up to the rows it hands to the CSV and XLSX writers.
\<close>

definition in_memory_purchases ::
  "pylib \<Rightarrow> nat list \<Rightarrow> int \<Rightarrow> rat \<Rightarrow> rat \<Rightarrow> pystr \<Rightarrow> pystr \<Rightarrow> int \<Rightarrow> int \<Rightarrow> error + row list" where
  "in_memory_purchases lib clients_csv_bytes rows_total valor_min valor_max inicio_str fim_str
       filiais_qtd seed =
     (if rows_total < 1 then Inl (HTTPException 400 Rows_must_be_ge_1)
      else if rows_total > MAX_PURCHASES lib then Inl (HTTPException 400 Rows_exceeds_limit)
      else if valor_max < valor_min then Inl (HTTPException 400 Valor_max_must_be_ge_valor_min)
      else
        (case strptime_ymd lib inicio_str of
           None \<Rightarrow> Inl (HTTPException 400 Invalid_date_format)
         | Some inicio \<Rightarrow>
        (case strptime_ymd lib fim_str of
           None \<Rightarrow> Inl (HTTPException 400 Invalid_date_format)
         | Some fim \<Rightarrow>
        (if fim < inicio then Inl (HTTPException 400 Fim_earlier_than_inicio)
         else
        (case parse_client_codes_from_upload lib clients_csv_bytes of
           Inl e \<Rightarrow> Inl e
         | Inr codigos_clientes \<Rightarrow>
             allocation_pipeline (strftime_ymd lib) codigos_clientes rows_total valor_min
               valor_max inicio fim filiais_qtd (Random lib seed))))))"

section \<open>The functions of \<^verbatim>\<open>gerar_clientes.py\<close>\<close>

definition DDDS :: "int list" where
  "DDDS =
     [11, 12, 13, 14, 15, 16, 17, 18, 19,
      21, 22, 24, 27, 28,
      31, 32, 33, 34, 35, 37, 38,
      41, 42, 43, 44, 45, 46, 47, 48, 49,
      51, 53, 54, 55,
      61, 62, 63, 64, 65, 66, 67, 68, 69,
      71, 73, 74, 75, 77, 79,
      81, 82, 83, 84, 85, 86, 87, 88, 89,
      91, 92, 93, 94, 95, 96, 97, 98, 99]"

definition remove_accents :: "pylib \<Rightarrow> pystr \<Rightarrow> pystr" where
  "remove_accents lib s = filter (\<lambda>c. \<not> category_Mn lib c) (normalize_NFD lib s)"

definition titulos :: "pystr list" where
  "titulos =
     [ascii ''Sr.'', ascii ''Sra.'', ascii ''Sr'', ascii ''Sra'', ascii ''Dr.'', ascii ''Dra.'',
      ascii ''Dr'', ascii ''Dra'', ascii ''Prof.'', ascii ''Prof'']"

definition gerar_nome :: "pylib \<Rightarrow> rng \<Rightarrow> pystr \<times> rng" where
  "gerar_nome lib fake =
     (case faker_name lib fake of (nome, fake') \<Rightarrow>
        (py_strip_by (isspace lib)
           (foldl (\<lambda>nome t. str_replace t [] (str_replace (t @ ascii '' '') [] nome)) nome titulos),
         fake'))"

text \<open>
  \<open>gerar_cpf\<close> and \<open>gerar_celular\<close> take no generator: they draw from the process-wide
  generator of the module \<open>random\<close>, whose state is the argument \<open>g\<close> here.
\<close>

definition gerar_cpf :: "pylib \<Rightarrow> rng \<Rightarrow> pystr \<times> rng" where
  "gerar_cpf lib g = cpf_generate lib g"

definition gerar_celular :: "rng \<Rightarrow> error + (pystr \<times> rng)" where
  "gerar_celular g =
     (case rng_choice DDDS g of
        Inl e \<Rightarrow> Inl e
      | Inr (ddd, g1) \<Rightarrow>
     (case rng_randint 0 9999 g1 of
        Inl e \<Rightarrow> Inl e
      | Inr (primeira, g2) \<Rightarrow>
     (case rng_randint 0 9999 g2 of
        Inl e \<Rightarrow> Inl e
      | Inr (segunda, g3) \<Rightarrow>
          Inr (ascii ''('' @ fmt_0d 2 ddd @ ascii '') 9'' @ fmt_0d 4 primeira @ ascii ''-''
                 @ fmt_0d 4 segunda, g3))))"

definition conectores :: "pystr list" where
  "conectores = [ascii ''da'', ascii ''de'', ascii ''do'', ascii ''dos'', ascii ''das'']"

definition permitido :: pystr where
  "permitido = ascii ''abcdefghijklmnopqrstuvwxyz0123456789.-''"

definition sanitiza :: "pystr \<Rightarrow> pystr" where
  "sanitiza local = py_strip_chars (ascii ''.'') (filter (\<lambda>ch. ch \<in> set permitido) local)"

definition gerar_email_local :: "pylib \<Rightarrow> pystr \<Rightarrow> pystr" where
  "gerar_email_local lib nome =
     (let base = remove_accents lib (str_lower lib nome);
          base = foldl (\<lambda>base p. str_replace p (ascii '' '') base) base
                   [ascii '' da '', ascii '' de '', ascii '' do '', ascii '' dos '', ascii '' das ''];
          partes = filter (\<lambda>p. p \<notin> set conectores) (py_split (isspace lib) base)
      in if partes = [] then ascii ''cliente''
         else
           let local = (if length partes \<ge> 2 then hd partes @ ascii ''.'' @ last partes
                        else hd partes);
               local = sanitiza local
           in if local = [] then ascii ''cliente'' else local)"

definition gerar_codigo :: "int \<Rightarrow> pystr" where
  "gerar_codigo i = ascii ''C'' @ fmt_0d 5 i"

section \<open>Clients in \<^verbatim>\<open>app.py\<close>\<close>

text \<open>
  The two \<open>while\<close> loops of \<open>_in_memory_clients\<close>. Nothing bounds the number of
  their iterations, so each is a partial function: \<open>None\<close> is a loop that never ends.
\<close>

partial_function (option) cpf_loop ::
  "pylib \<Rightarrow> pystr set \<Rightarrow> pystr \<Rightarrow> rng \<Rightarrow> (pystr \<times> rng) option" where
  "cpf_loop lib usados_cpf cpf g =
     (if cpf \<in> usados_cpf
      then (case gerar_cpf lib g of (cpf', g') \<Rightarrow> cpf_loop lib usados_cpf cpf' g')
      else Some (cpf, g))"

partial_function (option) email_loop ::
  "pystr set \<Rightarrow> pystr \<Rightarrow> pystr \<Rightarrow> pystr \<Rightarrow> nat \<Rightarrow> pystr option" where
  "email_loop usados_email local domain email n =
     (if email \<in> usados_email
      then email_loop usados_email local domain (local @ str_nat n @ ascii ''@'' @ domain) (n + 1)
      else Some email)"

text \<open>
  The loop \<open>for i in range(1, count + 1)\<close>. Its state: the two sets of used values, the
  rows, the generator of the Faker instance (\<open>fake\<close>) and the process-wide generator of
  the module \<open>random\<close> (\<open>g\<close>).
\<close>

fun clients_loop ::
  "pylib \<Rightarrow> pystr \<Rightarrow> int list \<Rightarrow> pystr set \<Rightarrow> pystr set \<Rightarrow> pystr list list \<Rightarrow> rng \<Rightarrow> rng
     \<Rightarrow> (error + pystr list list \<times> rng \<times> rng) option" where
  "clients_loop lib domain [] usados_cpf usados_email rows fake g = Some (Inr (rows, fake, g))"
| "clients_loop lib domain (i # rest) usados_cpf usados_email rows fake g =
     (case gerar_nome lib fake of (nome, fake1) \<Rightarrow>
     (case gerar_cpf lib g of (cpf0, g1) \<Rightarrow>
     (case cpf_loop lib usados_cpf cpf0 g1 of
        None \<Rightarrow> None
      | Some (cpf, g2) \<Rightarrow>
     (let local = gerar_email_local lib nome in
     (case email_loop usados_email local domain (local @ ascii ''@'' @ domain) 2 of
        None \<Rightarrow> None
      | Some email \<Rightarrow>
     (case gerar_celular g2 of
        Inl e \<Rightarrow> Some (Inl e)
      | Inr (celular, g3) \<Rightarrow>
          clients_loop lib domain rest (insert cpf usados_cpf) (insert email usados_email)
            (rows @ [[gerar_codigo i, nome, celular, cpf, email]]) fake1 g3))))))"

text \<open>
  \<open>_in_memory_clients\<close> up to the rows it hands to the writers. \<open>fake0\<close> is the state
  of the generator that a Faker instance uses when it is not seeded, \<open>g\<close> the state of
  the process-wide generator of \<open>random\<close>; the seed, when given, replaces the first only.
\<close>

definition in_memory_clients ::
  "pylib \<Rightarrow> int \<Rightarrow> pystr \<Rightarrow> int option \<Rightarrow> rng \<Rightarrow> rng \<Rightarrow> (error + pystr list list) option" where
  "in_memory_clients lib count domain seed fake0 g =
     (if count < 1 then Some (Inl (HTTPException 400 Count_must_be_ge_1))
      else if count > MAX_CLIENTS lib then Some (Inl (HTTPException 400 Count_exceeds_limit))
      else
        let fake = (case seed of None \<Rightarrow> fake0 | Some s \<Rightarrow> Random lib s) in
        (case clients_loop lib domain [1 .. count] {} {} [] fake g of
           None \<Rightarrow> None
         | Some (Inl e) \<Rightarrow> Some (Inl e)
         | Some (Inr (rows, fake', g')) \<Rightarrow> Some (Inr rows)))"

section \<open>Projections of a purchase row\<close>

definition cod_of :: "row \<Rightarrow> pystr" where
  "cod_of r = fst r"

definition data_of :: "row \<Rightarrow> pystr" where
  "data_of r = fst (snd r)"

definition valor_of :: "row \<Rightarrow> rat" where
  "valor_of r = fst (snd (snd r))"

definition filial_of :: "row \<Rightarrow> pystr" where
  "filial_of r = snd (snd (snd r))"

text \<open>The amount of a row lies between two bounds.\<close>

definition valor_in :: "rat \<Rightarrow> rat \<Rightarrow> row \<Rightarrow> bool" where
  "valor_in lo hi r = (lo \<le> valor_of r \<and> valor_of r \<le> hi)"

section \<open>An instance of the library parameters for evaluation\<close>

text \<open>
  Three uploads and what \<open>csv.DictReader\<close> makes of each. The first has its codes under
  the header \<open>codigo\<close>, which is not an accepted name; the second has the accepted header
  \<open>Codigo\<close>; the third ends its lines with a carriage return only, on which the reader
  raises at the first line.
\<close>

definition upload_a :: "nat list" where
  "upload_a = ascii ''Nome,codigo'' @ [10] @ ascii ''Ana Silva,C00001'' @ [10]"

definition upload_b :: "nat list" where
  "upload_b = ascii ''Codigo,Nome'' @ [10] @ ascii '' C00001 ,Ana Silva'' @ [10]
                @ ascii ''C00002,Rui Costa'' @ [10]"

definition upload_cr :: "nat list" where
  "upload_cr = ascii ''Codigo'' @ [13] @ ascii ''C00001'' @ [13] @ ascii ''C00002'' @ [13]"

definition reader_a :: csv_reader where
  "reader_a =
     \<lparr> fieldnames = Csv_gives (Some [ascii ''Nome'', ascii ''codigo'']),
       csv_rows = [[ascii ''Nome'' \<mapsto> ascii ''Ana Silva'', ascii ''codigo'' \<mapsto> ascii ''C00001'']],
       rows_raise = False \<rparr>"

definition reader_b :: csv_reader where
  "reader_b =
     \<lparr> fieldnames = Csv_gives (Some [ascii ''Codigo'', ascii ''Nome'']),
       csv_rows = [[ascii ''Codigo'' \<mapsto> ascii '' C00001 '', ascii ''Nome'' \<mapsto> ascii ''Ana Silva''],
                   [ascii ''Codigo'' \<mapsto> ascii ''C00002'', ascii ''Nome'' \<mapsto> ascii ''Rui Costa'']],
       rows_raise = False \<rparr>"

definition reader_cr :: csv_reader where
  "reader_cr = \<lparr> fieldnames = Csv_raises, csv_rows = [], rows_raise = False \<rparr>"

text \<open>
  On ASCII strings \<open>str.lower\<close>, \<open>str.isspace\<close>, NFD normalisation, the category test
  and the two decodings are what \<open>ascii_lib\<close> gives. Its date functions know the dates
  listed only, among them \<open>2024-1-1\<close>, which \<open>datetime.strptime\<close> parses as the first of
  January; its reader knows the three uploads above only and reads any other text as
  empty; its seeding, name generator and CPF generator are stand-ins that read the tape
  of the generator they are given.
\<close>

definition ascii_lower :: "pystr \<Rightarrow> pystr" where
  "ascii_lower s = map (\<lambda>c. if 65 \<le> c \<and> c \<le> 90 then c + 32 else c) s"

definition ascii_isspace :: "nat \<Rightarrow> bool" where
  "ascii_isspace c = (c \<in> {9, 10, 11, 12, 13, 28, 29, 30, 31, 32})"

definition jan_2024 :: "(pystr \<times> int) list" where
  "jan_2024 =
     [(ascii ''2024-01-01'', 738886), (ascii ''2024-01-02'', 738887),
      (ascii ''2024-01-03'', 738888), (ascii ''2024-01-04'', 738889),
      (ascii ''2024-1-1'', 738886)]"

definition known_uploads :: "(pystr \<times> csv_reader) list" where
  "known_uploads = [(upload_a, reader_a), (upload_b, reader_b), (upload_cr, reader_cr)]"

definition ascii_lib :: pylib where
  "ascii_lib =
     \<lparr> MAX_CLIENTS = 50000,
       MAX_PURCHASES = 200000,
       str_lower = ascii_lower,
       isspace = ascii_isspace,
       normalize_NFD = (\<lambda>s. s),
       category_Mn = (\<lambda>c. False),
       strptime_ymd = map_of jan_2024,
       strftime_ymd = (\<lambda>d. case map_of (map (\<lambda>(s, d). (d, s)) jan_2024) d of
                             None \<Rightarrow> [] | Some s \<Rightarrow> s),
       decode_utf8 = (\<lambda>b. if list_all (\<lambda>c. c < 128) b then Some b else None),
       decode_latin1 = (\<lambda>b. b),
       DictReader = (\<lambda>s. case map_of known_uploads s of
                           None \<Rightarrow> \<lparr> fieldnames = Csv_gives None, csv_rows = [],
                                     rows_raise = False \<rparr>
                         | Some r \<Rightarrow> r),
       Random = (\<lambda>seed i. nat \<bar>seed\<bar> + i),
       faker_name = (\<lambda>g. ([ascii ''Ana Silva'', ascii ''Dr. Rui da Costa''] ! (g 0 mod 2),
                           rng_advance g)),
       cpf_generate = (\<lambda>g. (ascii ''123.456.7'' @ fmt_0d 2 (int (g 0 mod 100)) @ ascii ''-00'',
                             rng_advance g)) \<rparr>"

section \<open>Preconditions of purchase generation\<close>


text \<open>
  The list of customer codes of an upload: what the loop over the rows collects, when the
  reader gives the field names, one of them is an accepted column name, and the reader
  yields every row. The upload has no customer-code column when the reader gives the
  field names and none is an accepted column name.
\<close>

definition customer_codes :: "pylib \<Rightarrow> nat list \<Rightarrow> pystr list option" where
  "customer_codes lib file_bytes =
     (let reader = open_reader lib file_bytes in
      case fieldnames reader of
        Csv_raises \<Rightarrow> None
      | Csv_gives fns \<Rightarrow>
     (case find_field fns of
        None \<Rightarrow> None
      | Some field \<Rightarrow>
          if rows_raise reader then None
          else Some (collect_codes (isspace lib) field (csv_rows reader) [])))"

definition no_code_column :: "pylib \<Rightarrow> nat list \<Rightarrow> bool" where
  "no_code_column lib file_bytes =
     (case fieldnames (open_reader lib file_bytes) of
        Csv_raises \<Rightarrow> False
      | Csv_gives fns \<Rightarrow> find_field fns = None)"







section \<open>The derivation of the email local part, in words\<close>

text \<open>
  The derivation in the words of C8 as amended: lower-case, strip the diacritics, split at
  whitespace, drop the connector words; no token left gives \<open>cliente\<close>; else the first
  and the last token joined by a dot (a single token alone), reduced to the permitted
  characters, without leading and trailing dots; nothing left gives \<open>cliente\<close>.
\<close>

definition email_local_derivation :: "pylib \<Rightarrow> pystr \<Rightarrow> pystr" where
  "email_local_derivation lib nome =
     (let tokens = filter (\<lambda>t. t \<notin> set conectores)
                     (py_split (isspace lib) (remove_accents lib (str_lower lib nome)))
      in if tokens = [] then ascii ''cliente''
         else
           let joined = (if length tokens = 1 then hd tokens
                         else hd tokens @ ascii ''.'' @ last tokens);
               kept = py_strip_chars (ascii ''.'') (filter (\<lambda>ch. ch \<in> set permitido) joined)
           in if kept = [] then ascii ''cliente'' else kept)"

text \<open>
  The derivation in the words of C8 as stated: the tokens are reduced to the permitted
  characters, the first and the last are joined by a dot, a single one is used alone, and
  \<open>cliente\<close> stands in when none remains.
\<close>

definition spec_email_local :: "pylib \<Rightarrow> pystr \<Rightarrow> pystr" where
  "spec_email_local lib nome =
     (let tokens = py_split (isspace lib) (remove_accents lib (str_lower lib nome));
          tokens = filter (\<lambda>t. t \<notin> set conectores) tokens;
          tokens = map (filter (\<lambda>ch. ch \<in> set permitido)) tokens
      in if length tokens \<ge> 2 then hd tokens @ ascii ''.'' @ last tokens
         else if length tokens = 1 then hd tokens
         else ascii ''cliente'')"

section \<open>Generators that agree on their next draws\<close>

definition agree :: "nat \<Rightarrow> rng \<Rightarrow> rng \<Rightarrow> bool" where
  "agree m g1 g2 = (\<forall>i < m. g1 i = g2 i)"

text \<open>
  Two results are the same up to the generator: the same error, or the same value with
  generators that agree on their next \<open>m\<close> draws.
\<close>

definition same_res :: "nat \<Rightarrow> error + ('a \<times> rng) \<Rightarrow> error + ('a \<times> rng) \<Rightarrow> bool" where
  "same_res m r1 r2 =
     (case r1 of
        Inl e \<Rightarrow> r2 = Inl e
      | Inr (x, g1) \<Rightarrow> (\<exists>g2. r2 = Inr (x, g2) \<and> agree m g1 g2))"

text \<open>
  A bound on the draws that the allocation reads: one per date of the pool when the date
  range has more than one day, two per coverage row, three per fill row.
\<close>

definition draws_needed :: "pystr list \<Rightarrow> int \<Rightarrow> int \<Rightarrow> int \<Rightarrow> nat" where
  "draws_needed codigos_clientes rows_total inicio fim =
     (let n = length codigos_clientes;
          t = nat (max rows_total (int n))
      in (if inicio < fim then t else 0) + 2 * n + 3 * (t - n))"

section \<open>Properties of the allocator\<close>

lemma py_index_mod:
  "xs \<noteq> [] \<Longrightarrow> 0 \<le> a \<Longrightarrow> py_mod a (int (length xs)) = Inr j
     \<Longrightarrow> py_index xs j = Inr (xs ! (nat a mod length xs))"
proof -
  assume xs: "xs \<noteq> []" and a: "0 \<le> a" and m: "py_mod a (int (length xs)) = Inr j"
  have j: "j = a mod int (length xs)" using m xs by (simp add: py_mod_def)
  have "0 \<le> j" "j < int (length xs)" using xs j by simp_all
  moreover have "nat j = nat a mod length xs" using a j by (simp add: nat_mod_distrib)
  ultimately show ?thesis by (simp add: py_index_def)
qed

lemma escolher_ok:
  "xs \<noteq> [] \<Longrightarrow> \<exists>x g'. escolher xs g = Inr (x, g') \<and> x \<in> set xs"
  by (simp add: escolher_def rng_choice_def)

lemma coverage_loop_spec:
  assumes "datas \<noteq> []" "filiais \<noteq> []"
  shows "\<exists>rows' g'. coverage_loop es vmin vmax datas filiais rows g = Inr (rows @ rows', g')
           \<and> map cod_of rows' = map snd es
           \<and> map data_of rows' = map (\<lambda>e. datas ! (fst e mod length datas)) es"
proof (induction es arbitrary: rows g)
  case Nil
  then show ?case by simp
next
  case (Cons e es)
  obtain idx cod where e: "e = (idx, cod)" by (cases e)
  obtain u g1 where u: "rng_uniform vmin vmax g = (u, g1)" by (cases "rng_uniform vmin vmax g")
  obtain filial g2 where f: "escolher filiais g1 = Inr (filial, g2)"
    using escolher_ok[OF assms(2)] by blast
  let ?d = "datas ! (idx mod length datas)"
  have m: "py_mod (int idx) (int (length datas)) = Inr (int idx mod int (length datas))"
    using assms(1) by (simp add: py_mod_def)
  have i: "py_index datas (int idx mod int (length datas)) = Inr ?d"
    using py_index_mod[OF assms(1) _ m] by simp
  let ?r = "(cod, ?d, py_round2 u, filial)"
  from Cons.IH[of "rows @ [?r]" g2]
  obtain rows' g' where IH:
    "coverage_loop es vmin vmax datas filiais (rows @ [?r]) g2 = Inr ((rows @ [?r]) @ rows', g')"
    "map cod_of rows' = map snd es"
    "map data_of rows' = map (\<lambda>e. datas ! (fst e mod length datas)) es" by blast
  then have "coverage_loop (e # es) vmin vmax datas filiais rows g = Inr (rows @ (?r # rows'), g')
     \<and> map cod_of (?r # rows') = map snd (e # es)
     \<and> map data_of (?r # rows') = map (\<lambda>e. datas ! (fst e mod length datas)) (e # es)"
    by (simp add: e u f m i cod_of_def data_of_def)
  then show ?case by blast
qed

lemma fill_loop_spec:
  assumes "codigos \<noteq> []" "datas \<noteq> []" "filiais \<noteq> []"
  shows "\<exists>rows' g'. fill_loop is codigos vmin vmax datas filiais rows g = Inr (rows @ rows', g')
           \<and> length rows' = length is
           \<and> set (map cod_of rows') \<subseteq> set codigos
           \<and> (\<forall>k < length is. data_of (rows' ! k)
                  = datas ! ((length rows + k + is ! k) mod length datas))"
proof (induction "is" arbitrary: rows g)
  case Nil
  then show ?case by simp
next
  case (Cons i "is")
  obtain cod g0 where c: "escolher codigos g = Inr (cod, g0)" "cod \<in> set codigos"
    using escolher_ok[OF assms(1)] by blast
  obtain u g1 where u: "rng_uniform vmin vmax g0 = (u, g1)" by (cases "rng_uniform vmin vmax g0")
  obtain filial g2 where f: "escolher filiais g1 = Inr (filial, g2)"
    using escolher_ok[OF assms(3)] by blast
  let ?j = "(int (length rows) + int i) mod int (length datas)"
  let ?d = "datas ! ((length rows + i) mod length datas)"
  have m: "py_mod (int (length rows) + int i) (int (length datas)) = Inr ?j"
    using assms(2) by (simp add: py_mod_def)
  have "py_index datas ?j = Inr (datas ! (nat (int (length rows) + int i) mod length datas))"
    using py_index_mod[OF assms(2) _ m] by simp
  then have i: "py_index datas ?j = Inr ?d"
    by (simp add: nat_add_distrib)
  let ?r = "(cod, ?d, py_round2 u, filial)"
  from Cons.IH[of "rows @ [?r]" g2]
  obtain rows' g' where IH:
    "fill_loop is codigos vmin vmax datas filiais (rows @ [?r]) g2 = Inr ((rows @ [?r]) @ rows', g')"
    "length rows' = length is"
    "set (map cod_of rows') \<subseteq> set codigos"
    "\<forall>k < length is. data_of (rows' ! k)
        = datas ! ((length (rows @ [?r]) + k + is ! k) mod length datas)" by blast
  have 1: "fill_loop (i # is) codigos vmin vmax datas filiais rows g = Inr (rows @ (?r # rows'), g')"
    using IH(1) by (simp add: c u f m i)
  have 2: "length (?r # rows') = length (i # is)" using IH(2) by simp
  have 3: "set (map cod_of (?r # rows')) \<subseteq> set codigos"
    using IH(3) c(2) by (simp add: cod_of_def)
  have 4: "\<forall>k < length (i # is). data_of ((?r # rows') ! k)
        = datas ! ((length rows + k + (i # is) ! k) mod length datas)"
  proof (intro allI impI)
    fix k assume "k < length (i # is)"
    then show "data_of ((?r # rows') ! k) = datas ! ((length rows + k + (i # is) ! k) mod length datas)"
      using IH(4) by (cases k) (simp_all add: data_of_def)
  qed
  from 1 2 3 4 show ?case by blast
qed

text \<open>
  What \<open>montar_compras\<close> returns on a valid input: it returns; the number of rows; the
  customer codes of the coverage rows and of all rows; the position in the date pool
  that each row reads.
\<close>

lemma montar_compras_spec:
  assumes "codigos \<noteq> []" "datas \<noteq> []" "filiais \<noteq> []" "vmin \<le> vmax"
  shows "\<exists>rows g'. montar_compras codigos total_linhas vmin vmax datas filiais g = Inr (rows, g')
           \<and> int (length rows) = max total_linhas (int (length codigos))
           \<and> take (length codigos) (map cod_of rows) = codigos
           \<and> set (map cod_of rows) = set codigos
           \<and> (\<forall>i < length codigos. data_of (rows ! i) = datas ! (i mod length datas))
           \<and> (\<forall>k. length codigos + k < length rows \<longrightarrow>
                  data_of (rows ! (length codigos + k))
                    = datas ! ((length codigos + 2 * k) mod length datas))"
proof -
  let ?n = "length codigos"
  obtain rows1 g1 where cov:
    "coverage_loop (enumerate 0 codigos) vmin vmax datas filiais [] g = Inr ([] @ rows1, g1)"
    "map cod_of rows1 = map snd (enumerate 0 codigos)"
    "map data_of rows1 = map (\<lambda>e. datas ! (fst e mod length datas)) (enumerate 0 codigos)"
    using coverage_loop_spec[OF assms(2,3)] by blast
  have cods1: "map cod_of rows1 = codigos" using cov(2) by simp
  then have len1: "length rows1 = ?n" by (metis length_map)
  have data1: "data_of (rows1 ! i) = datas ! (i mod length datas)" if "i < ?n" for i
  proof -
    have "data_of (rows1 ! i) = map data_of rows1 ! i" using that len1 by simp
    also have "\<dots> = datas ! (fst (enumerate 0 codigos ! i) mod length datas)"
      using that by (simp add: cov(3))
    also have "\<dots> = datas ! (i mod length datas)" using that by (simp add: nth_enumerate_eq)
    finally show ?thesis .
  qed
  let ?m = "nat (max total_linhas (int ?n) - int (length rows1))"
  obtain rows2 g2 where fil:
    "fill_loop [0 ..< ?m] codigos vmin vmax datas filiais rows1 g1 = Inr (rows1 @ rows2, g2)"
    "length rows2 = length [0 ..< ?m]"
    "set (map cod_of rows2) \<subseteq> set codigos"
    "\<forall>k < length [0 ..< ?m]. data_of (rows2 ! k)
        = datas ! ((length rows1 + k + [0 ..< ?m] ! k) mod length datas)"
    using fill_loop_spec[OF assms(1,2,3)] by blast
  have len2: "length rows2 = ?m" using fil(2) by simp
  have 1: "montar_compras codigos total_linhas vmin vmax datas filiais g = Inr (rows1 @ rows2, g2)"
    using assms(4) cov(1) fil(1) by (simp add: montar_compras_def Let_def)
  have 2: "int (length (rows1 @ rows2)) = max total_linhas (int ?n)"
    using len1 len2 by simp
  have 3: "take ?n (map cod_of (rows1 @ rows2)) = codigos"
    using cods1 len1 by simp
  have 4: "set (map cod_of (rows1 @ rows2)) = set codigos"
  proof -
    have "set (map cod_of (rows1 @ rows2)) = set (map cod_of rows1) \<union> set (map cod_of rows2)"
      by simp
    then show ?thesis using fil(3) unfolding cods1 by auto
  qed
  have 5: "\<forall>i < ?n. data_of ((rows1 @ rows2) ! i) = datas ! (i mod length datas)"
    using data1 len1 by (simp add: nth_append)
  have 6: "\<forall>k. ?n + k < length (rows1 @ rows2) \<longrightarrow>
              data_of ((rows1 @ rows2) ! (?n + k)) = datas ! ((?n + 2 * k) mod length datas)"
  proof (intro allI impI)
    fix k assume "?n + k < length (rows1 @ rows2)"
    then have k: "k < ?m" using len1 len2 by simp
    have "(rows1 @ rows2) ! (?n + k) = rows2 ! k" using len1 by (simp add: nth_append)
    moreover have "data_of (rows2 ! k) = datas ! ((length rows1 + k + [0 ..< ?m] ! k) mod length datas)"
      using fil(4) k by simp
    moreover have "length rows1 + k + [0 ..< ?m] ! k = ?n + 2 * k"
      using k len1 by simp
    ultimately show "data_of ((rows1 @ rows2) ! (?n + k)) = datas ! ((?n + 2 * k) mod length datas)"
      by simp
  qed
  from 1 2 3 4 5 6 show ?thesis by blast
qed

lemmas eval_alloc =
  montar_compras_def Let_def py_mod_def py_index_def rng_uniform_def rng_random_def
  rng_advance_def escolher_def rng_choice_def py_round2_def upt_conv_Cons enumerate_simps
  ascii_def cod_of_def data_of_def valor_of_def filial_of_def

section \<open>Claims about the allocator\<close>

text \<open>
  C1. For every non-empty list of customer codes and valid parameters (a non-empty date
  pool, a non-empty branch pool, \<open>valor_min \<le> valor_max\<close>), \<open>montar_compras\<close> returns
  rows, and the set of the customer codes of these rows is the set of the input codes:
  no code is left out, none is invented.
\<close>

theorem montar_compras_customer_codes:
  assumes "codigos \<noteq> []" "datas \<noteq> []" "filiais \<noteq> []" "vmin \<le> vmax"
  shows "\<exists>rows g'. montar_compras codigos total_linhas vmin vmax datas filiais g = Inr (rows, g')
           \<and> set (map cod_of rows) = set codigos"
  using montar_compras_spec[OF assms, of total_linhas g] by blast

theorem montar_compras_customer_codes_witness:
  "\<exists>rows g'. montar_compras [ascii ''C00001'', ascii ''C00002''] 3 10 10
        [ascii ''2024-01-01''] [ascii ''F001''] (\<lambda>i. i) = Inr (rows, g')
     \<and> set (map cod_of rows) = {ascii ''C00001'', ascii ''C00002''}"
  using montar_compras_customer_codes[of "[ascii ''C00001'', ascii ''C00002'']"
      "[ascii ''2024-01-01'']" "[ascii ''F001'']" 10 10 3 "\<lambda>i. i"]
  by simp

text \<open>
  C2. On the same inputs the number of rows returned is
  \<open>max(total_linhas, len(codigos_clientes))\<close>: a smaller \<open>total_linhas\<close> is raised to the
  number of customers and the call returns rows, not an error.
\<close>

theorem montar_compras_row_count:
  assumes "codigos \<noteq> []" "datas \<noteq> []" "filiais \<noteq> []" "vmin \<le> vmax"
  shows "\<exists>rows g'. montar_compras codigos total_linhas vmin vmax datas filiais g = Inr (rows, g')
           \<and> int (length rows) = max total_linhas (int (length codigos))"
  using montar_compras_spec[OF assms, of total_linhas g] by blast

theorem montar_compras_row_count_witness:
  "\<exists>rows g'. montar_compras [ascii ''C00001'', ascii ''C00002''] 1 10 10
        [ascii ''2024-01-01''] [ascii ''F001''] (\<lambda>i. i) = Inr (rows, g')
     \<and> length rows = 2"
  using montar_compras_row_count[of "[ascii ''C00001'', ascii ''C00002'']"
      "[ascii ''2024-01-01'']" "[ascii ''F001'']" 10 10 1 "\<lambda>i. i"]
  by simp

text \<open>
  C9. For every non-empty list of customer codes, every non-empty date pool of any
  length, every non-empty branch pool and every \<open>valor_min \<le> valor_max\<close>,
  \<open>montar_compras\<close> returns rows: no index into the date pool is out of range
  (\<open>py_index\<close> never gives IndexError), nothing else raises.
\<close>

theorem montar_compras_returns:
  assumes "codigos \<noteq> []" "datas \<noteq> []" "filiais \<noteq> []" "vmin \<le> vmax"
  shows "\<exists>rows g'. montar_compras codigos total_linhas vmin vmax datas filiais g = Inr (rows, g')"
  using montar_compras_spec[OF assms, of total_linhas g] by blast

theorem montar_compras_returns_witness:
  "\<exists>rows g'. montar_compras [ascii ''C00001'', ascii ''C00002'', ascii ''C00003''] 7 10 20
        [ascii ''2024-01-01'', ascii ''2024-01-02''] [ascii ''F001''] (\<lambda>i. 3 * i) = Inr (rows, g')"
  using montar_compras_returns[of "[ascii ''C00001'', ascii ''C00002'', ascii ''C00003'']"
      "[ascii ''2024-01-01'', ascii ''2024-01-02'']" "[ascii ''F001'']" 10 20 7 "\<lambda>i. 3 * i"]
  by simp

text \<open>
  C4. The claim has the fill phase read the date pool at the position
  \<open>current_row_count mod pool_size\<close>. The source reads it at
  \<open>(len(rows) + i) % len(datas)\<close>, where \<open>len(rows)\<close> already counts the rows that the
  fill loop appended: with one customer, three rows and a pool of three dates, the third
  row (row count 2) reads position \<open>(2 + 1) mod 3 = 0\<close>, the first date, and not
  position 2, the third date.
\<close>

theorem fill_phase_date_position:
  "\<exists>rows g'. montar_compras [ascii ''C00001''] 3 10 10
        [ascii ''2024-01-01'', ascii ''2024-01-02'', ascii ''2024-01-03''] [ascii ''F001''] g = Inr (rows, g')
     \<and> map data_of rows = [ascii ''2024-01-01'', ascii ''2024-01-02'', ascii ''2024-01-01'']"
  by (simp add: eval_alloc)

section \<open>Branch codes\<close>

lemma str_nat_1: "n < 10 \<Longrightarrow> str_nat n = [48 + n]"
  by (simp add: str_nat.simps)

lemma str_nat_2: "10 \<le> n \<Longrightarrow> n < 100 \<Longrightarrow> str_nat n = [48 + n div 10, 48 + n mod 10]"
  by (subst str_nat.simps) (simp add: str_nat_1)

lemma str_nat_3:
  "100 \<le> n \<Longrightarrow> n < 1000 \<Longrightarrow> str_nat n = [48 + n div 100, 48 + n div 10 mod 10, 48 + n mod 10]"
  by (subst str_nat.simps) (simp add: str_nat_2 div_mult2_eq[symmetric])

lemma length_str_nat_ge: "100 \<le> n \<Longrightarrow> 3 \<le> length (str_nat n)"
proof (induction n rule: str_nat.induct)
  case (1 n)
  show ?case
  proof (cases "n < 1000")
    case True
    then show ?thesis using "1.prems" by (simp add: str_nat_3)
  next
    case False
    then have "str_nat n = str_nat (n div 10) @ [48 + n mod 10]"
      by (subst str_nat.simps) simp
    moreover have "3 \<le> length (str_nat (n div 10))"
      using False by (intro "1.IH") simp_all
    ultimately show ?thesis by simp
  qed
qed

lemma fmt_0d_3_small:
  "n < 1000 \<Longrightarrow> fmt_0d 3 (int n) = [48 + n div 100, 48 + n div 10 mod 10, 48 + n mod 10]"
proof -
  assume n: "n < 1000"
  consider "n < 10" | "10 \<le> n" "n < 100" | "100 \<le> n" using n by linarith
  then show ?thesis
  proof cases
    case 1 then show ?thesis by (simp add: fmt_0d_def str_nat_1 numeral_3_eq_3)
  next
    case 2 then show ?thesis by (simp add: fmt_0d_def str_nat_2 numeral_3_eq_3)
  next
    case 3 then show ?thesis using n by (simp add: fmt_0d_def str_nat_3)
  qed
qed

lemma fmt_0d_3_large: "1000 \<le> n \<Longrightarrow> fmt_0d 3 (int n) = str_nat n"
  using length_str_nat_ge[of n] by (simp add: fmt_0d_def)

lemma gerar_filiais_length: "length (gerar_filiais qtd) = nat (max 1 qtd)"
  by (simp add: gerar_filiais_def Let_def)

lemma gerar_filiais_nth:
  "k < nat (max 1 qtd) \<Longrightarrow> gerar_filiais qtd ! k = ascii ''F'' @ fmt_0d 3 (int (k + 1))"
  by (simp add: gerar_filiais_def Let_def add.commute)

text \<open>
  C10. For every integer \<open>qtd\<close>, \<open>gerar_filiais\<close> returns \<open>max(1, qtd)\<close> codes; the code at
  position \<open>k\<close> is \<open>F\<close> followed by the three decimal digits of \<open>k + 1\<close> (by all its
  digits from 1000 on); a zero or negative \<open>qtd\<close> gives the single code \<open>F001\<close>.
\<close>

theorem gerar_filiais_codes:
  "length (gerar_filiais qtd) = nat (max 1 qtd)
   \<and> (\<forall>k < nat (max 1 qtd).
         gerar_filiais qtd ! k =
           (if k + 1 < 1000
            then ascii ''F'' @ [48 + (k + 1) div 100, 48 + (k + 1) div 10 mod 10, 48 + (k + 1) mod 10]
            else ascii ''F'' @ str_nat (k + 1)))
   \<and> (qtd \<le> 0 \<longrightarrow> gerar_filiais qtd = [ascii ''F001''])"
proof (intro conjI allI impI)
  show "length (gerar_filiais qtd) = nat (max 1 qtd)" by (rule gerar_filiais_length)
next
  fix k assume k: "k < nat (max 1 qtd)"
  show "gerar_filiais qtd ! k =
           (if k + 1 < 1000
            then ascii ''F'' @ [48 + (k + 1) div 100, 48 + (k + 1) div 10 mod 10, 48 + (k + 1) mod 10]
            else ascii ''F'' @ str_nat (k + 1))"
  proof (cases "k + 1 < 1000")
    case True
    then show ?thesis using gerar_filiais_nth[OF k] fmt_0d_3_small[of "k + 1"] by simp
  next
    case False
    then show ?thesis using gerar_filiais_nth[OF k] fmt_0d_3_large[of "k + 1"] by simp
  qed
next
  assume "qtd \<le> 0"
  then have "max 1 qtd = 1" by simp
  then show "gerar_filiais qtd = [ascii ''F001'']"
    by (simp add: gerar_filiais_def Let_def fmt_0d_def str_nat_1 ascii_def numeral_3_eq_3)
qed

theorem gerar_filiais_codes_witness:
  "length (gerar_filiais 3) = 3
   \<and> gerar_filiais 3 ! 0 = ascii ''F001'' \<and> gerar_filiais 3 ! 1 = ascii ''F002''
   \<and> gerar_filiais 3 ! 2 = ascii ''F003''
   \<and> gerar_filiais (- 4) = [ascii ''F001'']"
  using gerar_filiais_codes[of 3] gerar_filiais_codes[of "- 4"]
  by (simp add: ascii_def)

section \<open>The date pool\<close>




section \<open>Amounts\<close>

lemma py_round2_example:
  assumes "0 \<le> u" "u < 1"
  shows "py_round2 (10001 / 1000 + (10004 / 1000 - 10001 / 1000) * u) = 10"
proof -
  let ?y = "(10001 / 1000 + (10004 / 1000 - 10001 / 1000) * u) * 100"
  have y: "?y = 10001 / 10 + 3 / 10 * u" by (simp add: algebra_simps)
  have f: "\<lfloor>?y\<rfloor> = 1000"
    unfolding y using assms by (intro floor_unique) simp_all
  have "?y - of_int \<lfloor>?y\<rfloor> < 1 / 2" unfolding f unfolding y using assms by simp
  then show ?thesis unfolding py_round2_def Let_def f by simp
qed

lemma rng_random_range: "rng_random g = (u, g') \<Longrightarrow> 0 \<le> u \<and> u < 1"
proof -
  assume "rng_random g = (u, g')"
  then have u: "u = of_nat (g 0 mod 2 ^ 53) / 2 ^ 53" by (simp add: rng_random_def)
  have "g 0 mod 2 ^ 53 < 2 ^ 53" by simp
  then have "(of_nat (g 0 mod 2 ^ 53) :: rat) < of_nat (2 ^ 53)" by (simp only: of_nat_less_iff)
  then show ?thesis unfolding u by simp
qed

lemma rng_uniform_range:
  assumes "a \<le> b" "rng_uniform a b g = (u, g')"
  shows "a \<le> u \<and> u \<le> b"
proof -
  obtain r where r: "rng_random g = (r, g')" "u = a + (b - a) * r"
    using assms(2) by (auto simp: rng_uniform_def split: prod.splits)
  have r01: "0 \<le> r" "r < 1" using rng_random_range[OF r(1)] by simp_all
  have "0 \<le> (b - a) * r" using assms(1) r01 by simp
  moreover have "(b - a) * r \<le> (b - a) * 1"
    using assms(1) r01 by (intro mult_left_mono) simp_all
  ultimately show ?thesis unfolding r(2) by simp
qed

lemma py_round2_cases:
  "py_round2 x = of_int \<lfloor>x * 100\<rfloor> / 100
   \<or> (py_round2 x = of_int (\<lfloor>x * 100\<rfloor> + 1) / 100 \<and> of_int \<lfloor>x * 100\<rfloor> < x * 100)"
proof -
  have "x * 100 - of_int \<lfloor>x * 100\<rfloor> < 1 / 2 \<or> of_int \<lfloor>x * 100\<rfloor> < x * 100"
    by linarith
  then show ?thesis by (auto simp: py_round2_def Let_def)
qed

lemma py_round2_lower:
  assumes "of_int a / 100 \<le> x"
  shows "of_int a / 100 \<le> py_round2 x"
proof -
  have "of_int a \<le> x * 100" using assms by (simp add: field_simps)
  then have "a \<le> \<lfloor>x * 100\<rfloor>" by (simp add: le_floor_iff)
  then have "a \<le> \<lfloor>x * 100\<rfloor> + 1" by simp
  with \<open>a \<le> \<lfloor>x * 100\<rfloor>\<close>
  have "(of_int a :: rat) \<le> of_int \<lfloor>x * 100\<rfloor>" "(of_int a :: rat) \<le> of_int (\<lfloor>x * 100\<rfloor> + 1)"
    by (simp_all only: of_int_le_iff)
  then show ?thesis using py_round2_cases[of x] by (auto simp: divide_right_mono)
qed

lemma py_round2_upper:
  assumes "x \<le> of_int b / 100"
  shows "py_round2 x \<le> of_int b / 100"
proof -
  have xb: "x * 100 \<le> of_int b" using assms by (simp add: field_simps)
  then have 1: "\<lfloor>x * 100\<rfloor> \<le> b" by (simp add: floor_le_iff)
  have 2: "\<lfloor>x * 100\<rfloor> + 1 \<le> b" if "of_int \<lfloor>x * 100\<rfloor> < x * 100"
  proof -
    have "(of_int \<lfloor>x * 100\<rfloor> :: rat) < of_int b" using that xb by linarith
    then have "\<lfloor>x * 100\<rfloor> < b" by (simp only: of_int_less_iff)
    then show ?thesis by simp
  qed
  have f1: "(of_int \<lfloor>x * 100\<rfloor> :: rat) \<le> of_int b" using 1 by (simp only: of_int_le_iff)
  have f2: "(of_int (\<lfloor>x * 100\<rfloor> + 1) :: rat) \<le> of_int b" if "of_int \<lfloor>x * 100\<rfloor> < x * 100"
    using 2[OF that] by (simp only: of_int_le_iff)
  show ?thesis using py_round2_cases[of x] f1 f2 by (auto simp: divide_right_mono)
qed

lemma coverage_loop_valores:
  assumes "of_int a / 100 \<le> (of_int b / 100 :: rat)"
  shows "coverage_loop es (of_int a / 100) (of_int b / 100) datas filiais rows g = Inr (rows', g')
     \<Longrightarrow> list_all (valor_in (of_int a / 100) (of_int b / 100)) rows
     \<Longrightarrow> list_all (valor_in (of_int a / 100) (of_int b / 100)) rows'"
proof (induction es arbitrary: rows g)
  case Nil
  then show ?case by simp
next
  case (Cons e es)
  obtain idx cod where e: "e = (idx, cod)" by (cases e)
  from Cons.prems(1) obtain d u g1 f g2 where s:
    "rng_uniform (of_int a / 100) (of_int b / 100) g = (u, g1)"
    "coverage_loop es (of_int a / 100) (of_int b / 100) datas filiais
       (rows @ [(cod, d, py_round2 u, f)]) g2 = Inr (rows', g')"
    by (auto simp: e split: sum.splits prod.splits)
  have u: "of_int a / 100 \<le> u" "u \<le> of_int b / 100"
    using rng_uniform_range[OF assms s(1)] by simp_all
  have "of_int a / 100 \<le> py_round2 u" "py_round2 u \<le> of_int b / 100"
    using py_round2_lower[OF u(1)] py_round2_upper[OF u(2)] .
  then have "valor_in (of_int a / 100) (of_int b / 100) (cod, d, py_round2 u, f)"
    unfolding valor_in_def valor_of_def by (simp only: fst_conv snd_conv simp_thms)
  then show ?case using Cons.IH[OF s(2)] Cons.prems(2) by simp
qed

lemma fill_loop_valores:
  assumes "of_int a / 100 \<le> (of_int b / 100 :: rat)"
  shows "fill_loop is codigos (of_int a / 100) (of_int b / 100) datas filiais rows g = Inr (rows', g')
     \<Longrightarrow> list_all (valor_in (of_int a / 100) (of_int b / 100)) rows
     \<Longrightarrow> list_all (valor_in (of_int a / 100) (of_int b / 100)) rows'"
proof (induction "is" arbitrary: rows g)
  case Nil
  then show ?case by simp
next
  case (Cons i "is")
  from Cons.prems(1) obtain cod g0 d u g1 f g2 where s:
    "rng_uniform (of_int a / 100) (of_int b / 100) g0 = (u, g1)"
    "fill_loop is codigos (of_int a / 100) (of_int b / 100) datas filiais
       (rows @ [(cod, d, py_round2 u, f)]) g2 = Inr (rows', g')"
    by (auto split: sum.splits prod.splits)
  have u: "of_int a / 100 \<le> u" "u \<le> of_int b / 100"
    using rng_uniform_range[OF assms s(1)] by simp_all
  have "of_int a / 100 \<le> py_round2 u" "py_round2 u \<le> of_int b / 100"
    using py_round2_lower[OF u(1)] py_round2_upper[OF u(2)] .
  then have "valor_in (of_int a / 100) (of_int b / 100) (cod, d, py_round2 u, f)"
    unfolding valor_in_def valor_of_def by (simp only: fst_conv snd_conv simp_thms)
  then show ?case using Cons.IH[OF s(2)] Cons.prems(2) by simp
qed

text \<open>
  When both bounds are multiples of \<open>0.01\<close>, every amount that \<open>montar_compras\<close> returns
  lies between them.
\<close>

lemma montar_compras_valores:
  assumes "montar_compras codigos total_linhas (of_int a / 100) (of_int b / 100) datas filiais g
             = Inr (rows, g')"
  shows "list_all (valor_in (of_int a / 100) (of_int b / 100)) rows"
proof -
  have ab: "of_int a / 100 \<le> (of_int b / 100 :: rat)"
    using assms by (auto simp: montar_compras_def split: if_splits)
  from assms obtain rows1 g1 where s:
    "coverage_loop (enumerate 0 codigos) (of_int a / 100) (of_int b / 100) datas filiais [] g
       = Inr (rows1, g1)"
    "fill_loop [0 ..< nat (max total_linhas (int (length codigos)) - int (length rows1))] codigos
       (of_int a / 100) (of_int b / 100) datas filiais rows1 g1 = Inr (rows, g')"
    by (auto simp: montar_compras_def Let_def split: if_splits sum.splits prod.splits)
  have "list_all (valor_in (of_int a / 100) (of_int b / 100)) rows1"
    using coverage_loop_valores[OF ab s(1)] by simp
  then show ?thesis using fill_loop_valores[OF ab s(2)] by simp
qed

text \<open>
  C5. The claim bounds every amount by \<open>valor_min\<close> and \<open>valor_max\<close>. The source rounds the
  value drawn from \<open>[valor_min, valor_max]\<close> to two decimals and does not clamp it: with
  \<open>valor_min = 10.001\<close> and \<open>valor_max = 10.004\<close> every draw rounds to \<open>10.00\<close>, below
  \<open>valor_min\<close>, whatever the generator.
\<close>

theorem valor_outside_interval:
  "\<exists>rows g'. montar_compras [ascii ''C00001''] 1 (10001 / 1000) (10004 / 1000)
        [ascii ''2024-01-01''] [ascii ''F001''] g = Inr (rows, g')
     \<and> map valor_of rows = [10] \<and> (10 :: rat) < 10001 / 1000"
proof -
  obtain u g1 where u: "rng_random g = (u, g1)" by (cases "rng_random g")
  have r: "py_round2 (10001 / 1000 + (10004 / 1000 - 10001 / 1000) * u) = 10"
    using rng_random_range[OF u] py_round2_example by blast
  show ?thesis
    using r by (simp add: montar_compras_def py_mod_def py_index_def rng_uniform_def u
        escolher_def rng_choice_def enumerate_simps valor_of_def)
qed

section \<open>Purchase generation\<close>








lemmas eval_upload =
  open_reader_def customer_codes_def no_code_column_def find_field_def code_columns_def
  py_strip_by_def ascii_lib_def ascii_isspace_def known_uploads_def upload_a_def upload_b_def
  upload_cr_def reader_a_def reader_b_def reader_cr_def ascii_def Let_def




lemma upload_cr_read:
  "parse_client_codes_from_upload ascii_lib upload_cr = Inl CsvError"
  by (simp add: parse_client_codes_from_upload_def eval_upload)

lemma strptime_ascii_lib:
  "strptime_ymd ascii_lib (ascii ''2024-01-01'') = Some 738886"
  "strptime_ymd ascii_lib (ascii ''2024-01-02'') = Some 738887"
  "strptime_ymd ascii_lib (ascii ''2024-1-1'') = Some 738886"
  "strptime_ymd ascii_lib (ascii ''2024-13-01'') = None"
  "MAX_PURCHASES ascii_lib = 200000"
  by (simp_all add: ascii_lib_def jan_2024_def ascii_def)


lemma csv_error_example:
  "in_memory_purchases ascii_lib upload_cr 3 10 20 (ascii ''2024-01-01'') (ascii ''2024-01-02'') 1 42
     = Inl CsvError"
  by (simp add: in_memory_purchases_def strptime_ascii_lib upload_cr_read)




section \<open>Determinism of the allocation\<close>

lemma agree_advance:
  "agree (Suc m) g1 g2 \<Longrightarrow> g1 0 = g2 0 \<and> agree m (rng_advance g1) (rng_advance g2)"
  by (simp add: agree_def rng_advance_def)

lemma agree_mono: "agree m g1 g2 \<Longrightarrow> k \<le> m \<Longrightarrow> agree k g1 g2"
  by (simp add: agree_def)

lemma same_res_Inl: "same_res m (Inl e) (Inl e)"
  by (simp add: same_res_def)

lemma same_res_mono: "same_res m r1 r2 \<Longrightarrow> k \<le> m \<Longrightarrow> same_res k r1 r2"
  by (auto simp: same_res_def dest: agree_mono split: sum.splits)

lemma uniform_same:
  assumes "agree (Suc m) g1 g2"
  shows "\<exists>u h1 h2. rng_uniform a b g1 = (u, h1) \<and> rng_uniform a b g2 = (u, h2) \<and> agree m h1 h2"
  using agree_advance[OF assms] by (simp add: rng_uniform_def rng_random_def)

lemma escolher_same:
  assumes "agree (Suc m) g1 g2"
  shows "same_res m (escolher xs g1) (escolher xs g2)"
  using agree_advance[OF assms] by (simp add: escolher_def rng_choice_def same_res_def)

lemma randint_same:
  assumes "agree (Suc m) g1 g2"
  shows "same_res m (rng_randint a b g1) (rng_randint a b g2)"
  using agree_advance[OF assms] by (simp add: rng_randint_def same_res_def)

lemma coverage_loop_same:
  "agree (2 * length es + m) g1 g2 \<Longrightarrow>
     same_res m (coverage_loop es vmin vmax datas filiais rows g1)
                (coverage_loop es vmin vmax datas filiais rows g2)"
proof (induction es arbitrary: rows g1 g2)
  case Nil
  then show ?case by (simp add: same_res_def)
next
  case (Cons e es)
  obtain idx cod where e: "e = (idx, cod)" by (cases e)
  have "2 * length (e # es) + m = Suc (Suc (2 * length es + m))" by simp
  then have a: "agree (Suc (Suc (2 * length es + m))) g1 g2" using Cons.prems by metis
  obtain u h1 h2 where u: "rng_uniform vmin vmax g1 = (u, h1)" "rng_uniform vmin vmax g2 = (u, h2)"
    "agree (Suc (2 * length es + m)) h1 h2"
    using uniform_same[OF a] by blast
  have f: "same_res (2 * length es + m) (escolher filiais h1) (escolher filiais h2)"
    by (rule escolher_same[OF u(3)])
  show ?case
  proof (cases "py_mod (int idx) (int (length datas))")
    case (Inl x)
    then show ?thesis by (simp add: e same_res_def)
  next
    case (Inr j)
    note j = this
    show ?thesis
    proof (cases "py_index datas j")
      case (Inl x)
      then show ?thesis by (simp add: e j same_res_def)
    next
      case (Inr d)
      note d = this
      show ?thesis
      proof (cases "escolher filiais h1")
        case (Inl x)
        then show ?thesis using f by (simp add: e j d u same_res_def)
      next
        case (Inr p)
        obtain filial k1 where p: "p = (filial, k1)" by (cases p)
        obtain k2 where k: "escolher filiais h2 = Inr (filial, k2)" "agree (2 * length es + m) k1 k2"
          using f Inr p by (auto simp: same_res_def)
        show ?thesis
          using Cons.IH[OF k(2)] by (simp add: e j d u Inr p k(1))
      qed
    qed
  qed
qed

lemma fill_loop_same:
  "agree (3 * length is + m) g1 g2 \<Longrightarrow>
     same_res m (fill_loop is codigos vmin vmax datas filiais rows g1)
                (fill_loop is codigos vmin vmax datas filiais rows g2)"
proof (induction "is" arbitrary: rows g1 g2)
  case Nil
  then show ?case by (simp add: same_res_def)
next
  case (Cons i "is")
  have "3 * length (i # is) + m = Suc (Suc (Suc (3 * length is + m)))" by simp
  then have a: "agree (Suc (Suc (Suc (3 * length is + m)))) g1 g2" using Cons.prems by metis
  have c: "same_res (Suc (Suc (3 * length is + m))) (escolher codigos g1) (escolher codigos g2)"
    by (rule escolher_same[OF a])
  show ?case
  proof (cases "escolher codigos g1")
    case (Inl x)
    then show ?thesis using c by (simp add: same_res_def)
  next
    case (Inr p0)
    obtain cod c1 where p0: "p0 = (cod, c1)" by (cases p0)
    obtain c2 where c2: "escolher codigos g2 = Inr (cod, c2)"
      "agree (Suc (Suc (3 * length is + m))) c1 c2"
      using c Inr p0 by (auto simp: same_res_def)
    obtain u h1 h2 where u: "rng_uniform vmin vmax c1 = (u, h1)" "rng_uniform vmin vmax c2 = (u, h2)"
      "agree (Suc (3 * length is + m)) h1 h2"
      using uniform_same[OF c2(2)] by blast
    have f: "same_res (3 * length is + m) (escolher filiais h1) (escolher filiais h2)"
      by (rule escolher_same[OF u(3)])
    show ?thesis
    proof (cases "py_mod (int (length rows) + int i) (int (length datas))")
      case (Inl x)
      then show ?thesis by (simp add: Inr p0 c2(1) same_res_def)
    next
      case (Inr j)
      note j = this
      show ?thesis
      proof (cases "py_index datas j")
        case (Inl x)
        then show ?thesis by (simp add: \<open>escolher codigos g1 = Inr p0\<close> p0 c2(1) j same_res_def)
      next
        case (Inr d)
        note d = this
        show ?thesis
        proof (cases "escolher filiais h1")
          case (Inl x)
          then show ?thesis using f
            by (simp add: \<open>escolher codigos g1 = Inr p0\<close> p0 c2(1) j d u same_res_def)
        next
          case (Inr p)
          obtain filial k1 where p: "p = (filial, k1)" by (cases p)
          obtain k2 where k: "escolher filiais h2 = Inr (filial, k2)" "agree (3 * length is + m) k1 k2"
            using f Inr p by (auto simp: same_res_def)
          show ?thesis
            using Cons.IH[OF k(2)]
            by (simp add: \<open>escolher codigos g1 = Inr p0\<close> p0 c2(1) j d u Inr p k(1))
        qed
      qed
    qed
  qed
qed

lemma coverage_loop_length:
  "coverage_loop es vmin vmax datas filiais rows g = Inr (rows', g')
     \<Longrightarrow> length rows' = length rows + length es"
proof (induction es arbitrary: rows g)
  case Nil
  then show ?case by simp
next
  case (Cons e es)
  obtain idx cod where e: "e = (idx, cod)" by (cases e)
  from Cons.prems obtain r g1 where
    "coverage_loop es vmin vmax datas filiais (rows @ [r]) g1 = Inr (rows', g')"
    by (auto simp: e split: sum.splits prod.splits)
  from Cons.IH[OF this] show ?case by simp
qed

lemma montar_compras_same:
  assumes "agree (2 * length codigos + 3 * (nat (max total_linhas (int (length codigos))) - length codigos) + m) g1 g2"
  shows "same_res m (montar_compras codigos total_linhas vmin vmax datas filiais g1)
                    (montar_compras codigos total_linhas vmin vmax datas filiais g2)"
proof (cases "vmax < vmin")
  case True
  then show ?thesis by (simp add: montar_compras_def same_res_def)
next
  case False
  let ?n = "length codigos"
  let ?f = "nat (max total_linhas (int ?n)) - ?n"
  have a: "agree (2 * length (enumerate 0 codigos) + (3 * ?f + m)) g1 g2"
    using assms by (simp add: add.assoc)
  have c: "same_res (3 * ?f + m)
      (coverage_loop (enumerate 0 codigos) vmin vmax datas filiais [] g1)
      (coverage_loop (enumerate 0 codigos) vmin vmax datas filiais [] g2)"
    by (rule coverage_loop_same[OF a])
  show ?thesis
  proof (cases "coverage_loop (enumerate 0 codigos) vmin vmax datas filiais [] g1")
    case (Inl x)
    then show ?thesis using c False by (simp add: montar_compras_def same_res_def)
  next
    case (Inr p)
    obtain rows h1 where p: "p = (rows, h1)" by (cases p)
    obtain h2 where h: "coverage_loop (enumerate 0 codigos) vmin vmax datas filiais [] g2 = Inr (rows, h2)"
      "agree (3 * ?f + m) h1 h2"
      using c Inr p by (auto simp: same_res_def)
    have len: "length rows = ?n" using coverage_loop_length[OF h(1)] by simp
    have fl: "nat (max total_linhas (int ?n) - int (length rows)) = ?f"
      using len by (simp add: nat_diff_distrib')
    have "agree (3 * length [0 ..< ?f] + m) h1 h2" using h(2) by simp
    from fill_loop_same[OF this, of codigos vmin vmax datas filiais rows]
    show ?thesis using False by (simp add: montar_compras_def Inr p h(1) fl Let_def)
  qed
qed


lemma gerar_datas_loop_same:
  "agree ((if 0 < delta then k else 0) + m) g1 g2 \<Longrightarrow>
     same_res m (gerar_datas_loop k strftime inicio delta datas g1)
                (gerar_datas_loop k strftime inicio delta datas g2)"
proof (induction k arbitrary: datas g1 g2)
  case 0
  then show ?case by (simp add: same_res_def)
next
  case (Suc k)
  show ?case
  proof (cases "0 < delta")
    case True
    have "(if 0 < delta then Suc k else 0) + m = Suc (k + m)" using True by simp
    then have a: "agree (Suc (k + m)) g1 g2" using Suc.prems by metis
    have r: "same_res (k + m) (rng_randint 0 delta g1) (rng_randint 0 delta g2)"
      by (rule randint_same[OF a])
    show ?thesis
    proof (cases "rng_randint 0 delta g1")
      case (Inl x)
      then show ?thesis using r True by (simp add: same_res_def)
    next
      case (Inr p)
      obtain offset h1 where p: "p = (offset, h1)" by (cases p)
      obtain h2 where h: "rng_randint 0 delta g2 = Inr (offset, h2)" "agree (k + m) h1 h2"
        using r Inr p by (auto simp: same_res_def)
      have "agree ((if 0 < delta then k else 0) + m) h1 h2" using h(2) True by simp
      from Suc.IH[OF this] show ?thesis using True by (simp add: Inr p h(1))
    qed
  next
    case False
    have "agree ((if 0 < delta then k else 0) + m) g1 g2" using Suc.prems False by simp
    from Suc.IH[OF this] show ?thesis using False by simp
  qed
qed

lemma gerar_datas_same:
  assumes "agree ((if inicio < fim then nat n else 0) + m) g1 g2"
  shows "same_res m (gerar_datas strftime n inicio fim g1) (gerar_datas strftime n inicio fim g2)"
proof (cases "fim < inicio")
  case True
  then show ?thesis by (simp add: gerar_datas_def same_res_def)
next
  case False
  have "agree ((if 0 < fim - inicio then nat n else 0) + m) g1 g2" using assms by simp
  from gerar_datas_loop_same[OF this, of strftime inicio "[]"]
  show ?thesis using False by (simp add: gerar_datas_def Let_def)
qed

text \<open>
  C3. The rows of the allocation (the date pool built by \<open>gerar_datas\<close>, then
  \<open>montar_compras\<close>) are a function of the arguments and of the draws of the generator:
  two runs with the same arguments whose generators agree on the draws that the run
  reads return the same rows or fail with the same error. Two runs on the generator of
  the same seed are the case of two equal generators.
\<close>

theorem allocation_deterministic:
  assumes "agree (draws_needed codigos rows_total inicio fim) g1 g2"
  shows "allocation_pipeline strftime codigos rows_total vmin vmax inicio fim qtd g1
           = allocation_pipeline strftime codigos rows_total vmin vmax inicio fim qtd g2"
proof -
  let ?n = "length codigos"
  let ?t = "max rows_total (int ?n)"
  have "agree ((if inicio < fim then nat ?t else 0) + (2 * ?n + 3 * (nat ?t - ?n) + 0)) g1 g2"
    using assms by (simp add: draws_needed_def Let_def add.assoc)
  from gerar_datas_same[OF this, of strftime]
  have d: "same_res (2 * ?n + 3 * (nat ?t - ?n) + 0)
             (gerar_datas strftime ?t inicio fim g1) (gerar_datas strftime ?t inicio fim g2)" .
  show ?thesis
  proof (cases "gerar_datas strftime ?t inicio fim g1")
    case (Inl x)
    then show ?thesis using d by (simp add: allocation_pipeline_def same_res_def)
  next
    case (Inr p)
    obtain datas h1 where p: "p = (datas, h1)" by (cases p)
    obtain h2 where h: "gerar_datas strftime ?t inicio fim g2 = Inr (datas, h2)"
      "agree (2 * ?n + 3 * (nat ?t - ?n) + 0) h1 h2"
      using d Inr p by (auto simp: same_res_def)
    have "same_res 0 (montar_compras codigos rows_total vmin vmax datas (gerar_filiais qtd) h1)
                     (montar_compras codigos rows_total vmin vmax datas (gerar_filiais qtd) h2)"
      by (rule montar_compras_same[OF h(2)])
    then show ?thesis
      by (auto simp: allocation_pipeline_def Inr p h(1) same_res_def split: sum.splits)
  qed
qed

theorem allocation_deterministic_witness:
  "agree (draws_needed [ascii ''C00001'', ascii ''C00002''] 3 738886 738887)
     (\<lambda>i. i) (\<lambda>i. if i < 10 then i else 0)
   \<and> allocation_pipeline (strftime_ymd ascii_lib) [ascii ''C00001'', ascii ''C00002''] 3 10 20
        738886 738887 1 (\<lambda>i. i)
     = allocation_pipeline (strftime_ymd ascii_lib) [ascii ''C00001'', ascii ''C00002''] 3 10 20
        738886 738887 1 (\<lambda>i. if i < 10 then i else 0)"
proof -
  have a: "agree (draws_needed [ascii ''C00001'', ascii ''C00002''] 3 738886 738887)
     (\<lambda>i. i) (\<lambda>i. if i < 10 then i else 0)"
    by (simp add: agree_def draws_needed_def)
  show ?thesis
    using a allocation_deterministic[OF a] by simp
qed

section \<open>The email local part\<close>

lemma split_aux_run:
  "\<forall>c \<in> set w. \<not> sp c \<Longrightarrow> split_aux sp cur (w @ s) = split_aux sp (cur @ w) s"
  by (induction w arbitrary: cur) simp_all

lemma split_aux_word:
  assumes "\<forall>c \<in> set w. \<not> sp c" "w \<noteq> []" "sp b"
  shows "split_aux sp [] (w @ b # s) = w # split_aux sp [] s"
  using assms by (simp add: split_aux_run)

lemma replace_connector_split:
  assumes sp: "sp 32" and w: "\<forall>c \<in> set w. \<not> sp c" "w \<noteq> []" and P: "\<not> P w"
  shows "filter P (split_aux sp cur (str_replace_ne (32 # w @ [32]) [32] s))
           = filter P (split_aux sp cur s)"
proof (induction "32 # w @ [32]" "[32::nat]" s arbitrary: cur rule: str_replace_ne.induct)
  case 1
  then show ?case by simp
next
  case (2 c cs)
  show ?case
  proof (cases "prefix (32 # w @ [32]) (c # cs)")
    case True
    then obtain rest where cs: "c = 32" "cs = w @ 32 # rest"
      by (auto simp: prefix_def)
    have d: "drop (length (32 # w @ [32]) - 1) cs = rest" using cs by simp
    have IH: "filter P (split_aux sp [] (str_replace_ne (32 # w @ [32]) [32] rest))
                = filter P (split_aux sp [] rest)"
      using "2.hyps"(1)[OF True, of "[]"] d by simp
    have L: "str_replace_ne (32 # w @ [32]) [32] (c # cs)
               = 32 # str_replace_ne (32 # w @ [32]) [32] rest"
      by (simp only: str_replace_ne.simps True if_True d append_Cons append_Nil)
    have R: "split_aux sp [] (w @ 32 # rest) = w # split_aux sp [] rest"
      using split_aux_word[OF w sp] by simp
    show ?thesis
      unfolding L unfolding cs using sp IH R P by simp
  next
    case False
    have L: "str_replace_ne (32 # w @ [32]) [32] (c # cs)
               = c # str_replace_ne (32 # w @ [32]) [32] cs"
      by (simp only: str_replace_ne.simps False if_False)
    show ?thesis
      unfolding L using "2.hyps"(2)[OF False] by simp
  qed
qed


lemma replace_connector:
  assumes "sp 32" "\<forall>c \<in> set (ascii ''adeos''). \<not> sp c" "w \<in> set conectores"
  shows "filter (\<lambda>p. p \<notin> set conectores) (py_split sp (str_replace (32 # w @ [32]) (ascii '' '') s))
           = filter (\<lambda>p. p \<notin> set conectores) (py_split sp s)"
proof -
  have w: "\<forall>c \<in> set w. \<not> sp c" "w \<noteq> []"
    using assms(2,3) by (auto simp: conectores_def ascii_def)
  have "\<not> (\<lambda>p. p \<notin> set conectores) w" using assms(3) by simp
  from replace_connector_split[of sp w "\<lambda>p. p \<notin> set conectores", OF assms(1) w this]
  show ?thesis by (simp add: py_split_def str_replace_def ascii_def)
qed

lemma partes_without_replace:
  assumes "sp 32" "\<forall>c \<in> set (ascii ''adeos''). \<not> sp c"
  shows "filter (\<lambda>p. p \<notin> set conectores)
           (py_split sp (foldl (\<lambda>base p. str_replace p (ascii '' '') base) base
              [ascii '' da '', ascii '' de '', ascii '' do '', ascii '' dos '', ascii '' das '']))
         = filter (\<lambda>p. p \<notin> set conectores) (py_split sp base)"
proof -
  have p: "ascii '' da '' = 32 # ascii ''da'' @ [32]" "ascii '' de '' = 32 # ascii ''de'' @ [32]"
    "ascii '' do '' = 32 # ascii ''do'' @ [32]" "ascii '' dos '' = 32 # ascii ''dos'' @ [32]"
    "ascii '' das '' = 32 # ascii ''das'' @ [32]"
    by (simp_all add: ascii_def)
  have m: "ascii ''da'' \<in> set conectores" "ascii ''de'' \<in> set conectores"
    "ascii ''do'' \<in> set conectores" "ascii ''dos'' \<in> set conectores"
    "ascii ''das'' \<in> set conectores"
    by (simp_all add: conectores_def)
  show ?thesis
    unfolding foldl.simps p
    by (simp only: replace_connector[OF assms m(1)] replace_connector[OF assms m(2)]
        replace_connector[OF assms m(3)] replace_connector[OF assms m(4)]
        replace_connector[OF assms m(5)])
qed

lemmas eval_email =
  gerar_email_local_def Let_def sanitiza_def
  remove_accents_def py_split_def str_replace_def py_strip_chars_def py_strip_by_def
  conectores_def permitido_def ascii_def ascii_lib_def ascii_lower_def ascii_isspace_def

text \<open>
  C8, as stated: the local part equals the stated derivation. It does not: the source
  strips leading and trailing dots after the join, so \<open>Ana Jr.\<close> gives \<open>ana.jr\<close> where
  the stated derivation gives \<open>ana.jr.\<close>; and a name of one token gives that token, not
  \<open>cliente\<close>, although fewer than two tokens remain.
\<close>

theorem gerar_email_local_counterexample:
  "gerar_email_local ascii_lib (ascii ''Ana Jr.'') = ascii ''ana.jr''
   \<and> spec_email_local ascii_lib (ascii ''Ana Jr.'') = ascii ''ana.jr.''
   \<and> gerar_email_local ascii_lib (ascii ''Maria'') = ascii ''maria''"
  by (simp add: eval_email spec_email_local_def)

text \<open>
  C8, amended: for every full name \<open>gerar_email_local\<close> returns the result of the
  derivation \<open>email_local_derivation\<close>; the replacement of the space-delimited connector
  words, which the source does first, changes nothing. The library's \<open>isspace\<close> is
  assumed to hold of the space and of none of the letters \<open>a d e o s\<close>.
\<close>

theorem gerar_email_local_derivation:
  assumes "isspace lib 32" "\<forall>c \<in> set (ascii ''adeos''). \<not> isspace lib c"
  shows "gerar_email_local lib nome = email_local_derivation lib nome"
proof -
  let ?base = "remove_accents lib (str_lower lib nome)"
  let ?tokens = "filter (\<lambda>p. p \<notin> set conectores) (py_split (isspace lib) ?base)"
  have j: "(if 2 \<le> length ?tokens then hd ?tokens @ ascii ''.'' @ last ?tokens else hd ?tokens)
         = (if length ?tokens = 1 then hd ?tokens else hd ?tokens @ ascii ''.'' @ last ?tokens)"
    if "?tokens \<noteq> []"
  proof -
    have "length ?tokens \<noteq> 0" using that by simp
    then have "(2 \<le> length ?tokens) = (length ?tokens \<noteq> 1)" by linarith
    then show ?thesis by simp
  qed
  show ?thesis
    unfolding gerar_email_local_def email_local_derivation_def Let_def sanitiza_def
      partes_without_replace[OF assms]
    using j by simp
qed

theorem gerar_email_local_derivation_witness:
  "isspace ascii_lib 32
   \<and> \<not> isspace ascii_lib 97 \<and> \<not> isspace ascii_lib 100 \<and> \<not> isspace ascii_lib 101
   \<and> \<not> isspace ascii_lib 111 \<and> \<not> isspace ascii_lib 115
   \<and> gerar_email_local ascii_lib (ascii ''Maria das Dores Lima'') = ascii ''maria.lima''
   \<and> email_local_derivation ascii_lib (ascii ''Maria das Dores Lima'') = ascii ''maria.lima''"
proof -
  have 1: "isspace ascii_lib 32" by (simp add: ascii_lib_def ascii_isspace_def)
  have 2: "\<forall>c \<in> set (ascii ''adeos''). \<not> isspace ascii_lib c"
    by (simp add: ascii_lib_def ascii_isspace_def ascii_def)
  have 3: "email_local_derivation ascii_lib (ascii ''Maria das Dores Lima'') = ascii ''maria.lima''"
    by (simp add: eval_email email_local_derivation_def)
  have 4: "gerar_email_local ascii_lib (ascii ''Maria das Dores Lima'') = ascii ''maria.lima''"
    using 3 gerar_email_local_derivation[OF 1 2, of "ascii ''Maria das Dores Lima''"] by simp
  show ?thesis
    using 1 2 3 4 by (simp add: ascii_def)
qed

section \<open>Client generation\<close>

lemma replicate_numeral: "replicate (numeral k) x = x # replicate (pred_numeral k) x"
  by (simp add: numeral_eq_Suc)

lemmas eval_fmt = fmt_0d_def str_nat.simps replicate_numeral ascii_def

lemma celular_0: "gerar_celular (\<lambda>i. 0) = Inr (ascii ''(11) 90000-0000'', \<lambda>i. 0)"
  by (simp add: gerar_celular_def DDDS_def rng_choice_def rng_randint_def rng_advance_def eval_fmt)

lemma celular_1: "gerar_celular (\<lambda>i. Suc 0) = Inr (ascii ''(12) 90001-0001'', \<lambda>i. Suc 0)"
  by (simp add: gerar_celular_def DDDS_def rng_choice_def rng_randint_def rng_advance_def eval_fmt)

lemma nome_42:
  "gerar_nome ascii_lib (Random ascii_lib 42) = (ascii ''Ana Silva'', rng_advance (Random ascii_lib 42))"
  by (simp add: gerar_nome_def ascii_lib_def rng_advance_def titulos_def str_replace_def ascii_def py_strip_by_def ascii_isspace_def)

lemma cpf_0: "gerar_cpf ascii_lib (\<lambda>i. 0) = (ascii ''123.456.700-00'', \<lambda>i. 0)"
  by (simp add: gerar_cpf_def ascii_lib_def rng_advance_def eval_fmt)

lemma cpf_1: "gerar_cpf ascii_lib (\<lambda>i. Suc 0) = (ascii ''123.456.701-00'', \<lambda>i. Suc 0)"
  by (simp add: gerar_cpf_def ascii_lib_def rng_advance_def eval_fmt)

lemma email_ana: "gerar_email_local ascii_lib (ascii ''Ana Silva'') = ascii ''ana.silva''"
  by (simp add: eval_email)

lemma cpf_loop_fresh: "cpf_loop lib {} cpf g = Some (cpf, g)"
  by (subst cpf_loop.simps) simp

lemma email_loop_fresh: "email_loop {} local domain email n = Some email"
  by (subst email_loop.simps) simp

lemma codigo_1: "gerar_codigo 1 = ascii ''C00001''"
  by (simp add: gerar_codigo_def eval_fmt)

lemma upto_1: "[1 .. 1::int] = [1]"
  by (simp add: upto.simps)

text \<open>
  For every library: the phone is a function of the next three draws of the process-wide
  generator, and the single row of a run with the count 1 holds the phone drawn from the
  state that the CPF generator leaves. The seed reaches the name only.
\<close>

lemma gerar_celular_draws:
  "gerar_celular g =
     Inr (ascii ''('' @ fmt_0d 2 (DDDS ! (g 0 mod 67)) @ ascii '') 9''
            @ fmt_0d 4 (int (g 1 mod 10000)) @ ascii ''-'' @ fmt_0d 4 (int (g 2 mod 10000)),
          \<lambda>i. g (i + 3))"
proof -
  have l: "length DDDS = 67" "DDDS \<noteq> []" by (simp_all add: DDDS_def)
  have n: "nat (9999 - 0 + 1) = 10000" by simp
  show ?thesis
    unfolding gerar_celular_def rng_choice_def rng_randint_def rng_advance_def l(1) n
    using l(2) by (simp add: numeral_2_eq_2 numeral_3_eq_3)
qed

lemma in_memory_clients_one:
  assumes "1 \<le> MAX_CLIENTS lib"
    and "gerar_nome lib (Random lib seed) = (nome, fake1)"
    and "gerar_cpf lib g = (cpf, g1)"
    and "gerar_celular g1 = Inr (celular, g2)"
  shows "in_memory_clients lib 1 domain (Some seed) fake0 g =
           Some (Inr [[gerar_codigo 1, nome, celular, cpf,
                       gerar_email_local lib nome @ ascii ''@'' @ domain]])"
  using assms
  by (simp add: in_memory_clients_def upto_1 cpf_loop_fresh email_loop_fresh Let_def)

text \<open>
  C6. The claim has the seed fix the name, the phone and the national id of every record.
  \<open>_in_memory_clients\<close> passes the seed to the Faker instance only; \<open>gerar_celular\<close> and
  \<open>gerar_cpf\<close> draw from the process-wide generator of \<open>random\<close>, which the seed does
  not touch. Two runs with the seed 42 and the count 1 that differ in the state of that
  generator only return the same name and different phones and ids.
\<close>

theorem seed_does_not_fix_celular:
  "in_memory_clients ascii_lib 1 (ascii ''example.com'') (Some 42) fake0 (\<lambda>i. 0)
     = Some (Inr [[ascii ''C00001'', ascii ''Ana Silva'', ascii ''(11) 90000-0000'',
                   ascii ''123.456.700-00'', ascii ''ana.silva@example.com'']])
   \<and> in_memory_clients ascii_lib 1 (ascii ''example.com'') (Some 42) fake0 (\<lambda>i. Suc 0)
     = Some (Inr [[ascii ''C00001'', ascii ''Ana Silva'', ascii ''(12) 90001-0001'',
                   ascii ''123.456.701-00'', ascii ''ana.silva@example.com'']])"
proof -
  have m: "MAX_CLIENTS ascii_lib = 50000" by (simp add: ascii_lib_def)
  show ?thesis
    by (simp add: in_memory_clients_def m upto_1 nome_42 cpf_0 cpf_1 cpf_loop_fresh
        email_loop_fresh email_ana celular_0 celular_1 codigo_1)
      (simp add: ascii_def)
qed

end
